theory Spec2Isabelle
  imports Main "HOL-Library.AList"
begin

section \<open>The game session of botwars: \<^verbatim>\<open>src/server/models/game_instance.js\<close>\<close>

text \<open>
  \<^verbatim>\<open>GameInstance\<close> drives one match of an injected game (the rules module). The
  embedding keeps the JavaScript object as a record that every method takes and returns;
  a method that also returns a value returns a pair. The injected game is split in two:
  its methods are the fields of the record \<open>rules\<close>, its mutable state is a value of
  the type \<open>'g\<close> held in the field \<open>game\<close> of the session.

  The players of the rules module are integers. What \<^verbatim>\<open>registerNewPlayer\<close> and
  \<^verbatim>\<open>connect\<close> receive is a key of the plain object \<^verbatim>\<open>playerState\<close>: an integer slot
  (the route only ever registers without a requested slot, so the slots are 1, 2, ...) or
  one of the names that every plain object inherits from \<^verbatim>\<open>Object.prototype\<close>, under
  which \<^verbatim>\<open>this.playerState[player]\<close> finds an object although nothing was stored. A
  requested slot is an \<open>ident option\<close>, \<open>None\<close> being JavaScript's \<open>undefined\<close>.
  Other strings are outside the embedding. The own entries of \<^verbatim>\<open>playerState\<close> and
  \<^verbatim>\<open>playerTokenTable\<close> are association lists read with \<open>map_of\<close>. Events published
  with \<^verbatim>\<open>emit\<close> are appended to the field \<open>emitted\<close>, and the two history listeners
  that the constructor installs run inside \<open>emit\<close>, as they do in the source; the
  listeners that the route adds later only send messages and are not part of the session.
\<close>

subsection \<open>Data\<close>

type_synonym player = int
type_synonym token = string

text \<open>The own properties of \<^verbatim>\<open>Object.prototype\<close>, which a plain object such as
  \<^verbatim>\<open>playerState\<close> inherits: \<^verbatim>\<open>constructor\<close>, \<^verbatim>\<open>toString\<close>, ..., \<^verbatim>\<open>__proto__\<close>. The
  value found under \<^verbatim>\<open>__proto__\<close> is \<^verbatim>\<open>Object.prototype\<close> itself, under
  \<^verbatim>\<open>constructor\<close> the function \<^verbatim>\<open>Object\<close>, under each other name a function of its
  own.\<close>

datatype inherited_name =
    N_constructor
  | N_toString
  | N_toLocaleString
  | N_valueOf
  | N_hasOwnProperty
  | N_isPrototypeOf
  | N_propertyIsEnumerable
  | N_defineGetter
  | N_defineSetter
  | N_lookupGetter
  | N_lookupSetter
  | N_proto

text \<open>A key of \<^verbatim>\<open>playerState\<close>: an integer slot or an inherited name.\<close>

datatype ident = Slot player | Inherited inherited_name

text \<open>\<^verbatim>\<open>this.playerState[player] = { connectedOnce: false }\<close>\<close>

record player_state =
  connectedOnce :: bool

text \<open>What \<^verbatim>\<open>this.playerState[player]\<close> finds: an own entry, or the object inherited
  under a name.\<close>

datatype entry = Own player_state | Proto inherited_name

datatype GameStatus = NOT_STARTED | STARTED | ENDED | ERROR

text \<open>The five events of the session; \<^verbatim>\<open>move\<close> and \<^verbatim>\<open>waitingForMove\<close> carry arguments.\<close>

datatype 'mv event =
    Start
  | StateChange
  | MoveEvent player 'mv
  | WaitingForMove player
  | End

text \<open>An entry of \<^verbatim>\<open>history.events\<close>: \<^verbatim>\<open>{eventType: "state", fullState}\<close> or
  \<^verbatim>\<open>{eventType: "move", player, move}\<close>.\<close>

datatype ('fs, 'mv) hist_event =
    StateSnapshot 'fs
  | MoveRecord player 'mv

text \<open>\<^verbatim>\<open>this.history = { events: [], next: null }\<close>; \<open>None\<close> is \<^verbatim>\<open>null\<close>.\<close>

record ('fs, 'mv) history =
  events :: "('fs, 'mv) hist_event list"
  next' :: "'fs option"

text \<open>
  The methods of the injected game. \<open>game_getFullState\<close> returns \<open>None\<close> for
  \<^verbatim>\<open>null\<close>; \<open>fullState_truthy\<close> is JavaScript's truthiness of a full state that is
  not \<^verbatim>\<open>null\<close> (true of every object), which \<^verbatim>\<open>if (this.history.next)\<close> tests.
  \<open>game_move\<close> and \<open>game_onMoveTimeout\<close> mutate the game: they return its new state.
\<close>

record ('g, 'mv, 'fs, 'pr, 'w) rules =
  game_getPlayerCount :: "'g \<Rightarrow> nat"
  game_getParams :: "'g \<Rightarrow> 'pr"
  game_getNextPlayer :: "'g \<Rightarrow> player"
  game_isValidMove :: "'g \<Rightarrow> player \<Rightarrow> 'mv \<Rightarrow> bool"
  game_move :: "'g \<Rightarrow> player \<Rightarrow> 'mv \<Rightarrow> nat \<Rightarrow> 'g"
  game_isEnded :: "'g \<Rightarrow> bool"
  game_isError :: "'g \<Rightarrow> bool"
  game_getWinner :: "'g \<Rightarrow> 'w"
  game_getFullState :: "'g \<Rightarrow> 'fs option"
  fullState_truthy :: "'fs \<Rightarrow> bool"
  game_getMoveTimeLimit :: "'g \<Rightarrow> nat"
  game_onMoveTimeout :: "'g \<Rightarrow> bool \<times> 'g"

text \<open>The turn timer: \<open>running\<close> holds the duration of the pending schedule;
  \<open>timing\<close> tells that the timer was started and not stopped since.\<close>

record timer =
  running :: "nat option"
  timing :: bool

text \<open>The fields of the session. The last field is not one of them: it lists the
  inherited names whose object carries a property \<^verbatim>\<open>connectedOnce\<close> set to \<^verbatim>\<open>true\<close>.
  These objects belong to the whole process; \<^verbatim>\<open>connect\<close> reads and sets that property
  on them, and nothing else in the session touches them.\<close>

record ('g, 'mv, 'fs, 'i) session =
  id' :: 'i
  game :: 'g
  status :: GameStatus
  moveTimer :: timer
  history :: "('fs, 'mv) history"
  currentPlayerCount :: nat
  connectedPlayerCount :: nat
  playerTokenTable :: "(token \<times> ident) list"
  playerState :: "(ident \<times> player_state) list"
  emitted :: "'mv event list"
  inherited_connectedOnce :: "inherited_name list"

text \<open>What \<^verbatim>\<open>getInfo\<close> returns; a field that the object spread leaves out is \<open>None\<close>.\<close>

record ('i, 'pr, 'w) info =
  info_gameId :: 'i
  info_params :: 'pr
  info_connectedPlayers :: nat
  info_players :: nat
  info_status :: GameStatus
  info_nextPlayer :: "player option option"
  info_winner :: "'w option option"

datatype error = TypeError

subsection \<open>The helpers under \<^verbatim>\<open>utils/\<close>\<close>

text \<open>Modelled from the spec: \<^verbatim>\<open>utils/deepcopy\<close> is not among the sources. The spec
  asks for a deep copy of the full state, so that the log never aliases state that the
  game mutates; on immutable values that is the identity.\<close>

definition deepcopy :: "'a \<Rightarrow> 'a" where
  "deepcopy x = x"

text \<open>Modelled from the spec: \<^verbatim>\<open>utils/timer\<close> is not among the sources. \<^verbatim>\<open>start\<close>
  schedules the callback, replacing a pending schedule; \<^verbatim>\<open>stop\<close> cancels a pending
  schedule and returns the time elapsed since the timer was last started, 0 if it was
  never started or was stopped since. The elapsed time is read from the clock, so it is
  an argument here.\<close>

definition new_Timer :: timer where
  "new_Timer = \<lparr>running = None, timing = False\<rparr>"

definition timer_start :: "timer \<Rightarrow> nat \<Rightarrow> timer" where
  "timer_start t duration = t\<lparr>running := Some duration, timing := True\<rparr>"

definition timer_stop :: "timer \<Rightarrow> nat \<Rightarrow> nat \<times> timer" where
  "timer_stop t elapsed =
     ((if timing t then elapsed else 0), t\<lparr>running := None, timing := False\<rparr>)"

subsection \<open>The constructor and its history listeners\<close>

text \<open>\<^verbatim>\<open>new GameInstance(id, game)\<close>, in a process where no inherited object carries
  \<^verbatim>\<open>connectedOnce\<close> yet.\<close>

definition GameInstance :: "'i \<Rightarrow> 'g \<Rightarrow> ('g, 'mv, 'fs, 'i) session" where
  "GameInstance i g =
     \<lparr>id' = i, game = g, status = NOT_STARTED, moveTimer = new_Timer,
      history = \<lparr>events = [], next' = None\<rparr>,
      currentPlayerCount = 0, connectedPlayerCount = 0,
      playerTokenTable = [], playerState = [], emitted = [],
      inherited_connectedOnce = []\<rparr>"

text \<open>The listener of \<^verbatim>\<open>start\<close> and \<^verbatim>\<open>stateChange\<close>: a truthy pending snapshot is
  pushed, then the pending snapshot becomes a copy of the current full state.\<close>

definition on_start_stateChange ::
  "('g, 'mv, 'fs, 'pr, 'w) rules \<Rightarrow> ('g, 'mv, 'fs, 'i) session \<Rightarrow> ('g, 'mv, 'fs, 'i) session" where
  "on_start_stateChange R s =
     (let h = history s;
          h1 = (case next' h of
                  None \<Rightarrow> h
                | Some fs \<Rightarrow>
                    if fullState_truthy R fs
                    then h\<lparr>events := events h @ [StateSnapshot fs]\<rparr>
                    else h)
      in s\<lparr>history := h1\<lparr>next' := deepcopy (game_getFullState R (game s))\<rparr>\<rparr>)"

text \<open>The listener of \<^verbatim>\<open>move\<close>: a pending snapshot that is not \<^verbatim>\<open>null\<close> is pushed and
  cleared, then the move is pushed.\<close>

definition on_move ::
  "('g, 'mv, 'fs, 'i) session \<Rightarrow> player \<Rightarrow> 'mv \<Rightarrow> ('g, 'mv, 'fs, 'i) session" where
  "on_move s p m =
     (let h = history s;
          h1 = (case next' h of
                  None \<Rightarrow> h
                | Some fs \<Rightarrow> h\<lparr>events := events h @ [StateSnapshot fs], next' := None\<rparr>)
      in s\<lparr>history := h1\<lparr>events := events h1 @ [MoveRecord p m]\<rparr>\<rparr>)"

text \<open>\<^verbatim>\<open>this.emit(event, ...)\<close>: the event is published and the listeners of the
  constructor run.\<close>

definition emit ::
  "('g, 'mv, 'fs, 'pr, 'w) rules \<Rightarrow> ('g, 'mv, 'fs, 'i) session \<Rightarrow> 'mv event \<Rightarrow> ('g, 'mv, 'fs, 'i) session" where
  "emit R s e =
     (let s1 = s\<lparr>emitted := emitted s @ [e]\<rparr>
      in case e of
           Start \<Rightarrow> on_start_stateChange R s1
         | StateChange \<Rightarrow> on_start_stateChange R s1
         | MoveEvent p m \<Rightarrow> on_move s1 p m
         | WaitingForMove p \<Rightarrow> s1
         | End \<Rightarrow> s1)"

subsection \<open>The methods\<close>

definition hasStarted :: "('g, 'mv, 'fs, 'i) session \<Rightarrow> bool" where
  "hasStarted s = (status s \<noteq> NOT_STARTED)"

definition isEnded ::
  "('g, 'mv, 'fs, 'pr, 'w) rules \<Rightarrow> ('g, 'mv, 'fs, 'i) session \<Rightarrow> bool option" where
  "isEnded R s = (if hasStarted s then Some (game_isEnded R (game s)) else None)"

definition getNextPlayer ::
  "('g, 'mv, 'fs, 'pr, 'w) rules \<Rightarrow> ('g, 'mv, 'fs, 'i) session \<Rightarrow> player option" where
  "getNextPlayer R s = (if hasStarted s then Some (game_getNextPlayer R (game s)) else None)"

definition getWinner ::
  "('g, 'mv, 'fs, 'pr, 'w) rules \<Rightarrow> ('g, 'mv, 'fs, 'i) session \<Rightarrow> 'w option" where
  "getWinner R s = (if hasStarted s then Some (game_getWinner R (game s)) else None)"

definition getInfo ::
  "('g, 'mv, 'fs, 'pr, 'w) rules \<Rightarrow> ('g, 'mv, 'fs, 'i) session \<Rightarrow> ('i, 'pr, 'w) info" where
  "getInfo R s =
     \<lparr>info_gameId = id' s,
      info_params = game_getParams R (game s),
      info_connectedPlayers = connectedPlayerCount s,
      info_players = game_getPlayerCount R (game s),
      info_status = status s,
      info_nextPlayer = (if status s = STARTED then Some (getNextPlayer R s) else None),
      info_winner = (if status s = ENDED then Some (getWinner R s) else None)\<rparr>"

text \<open>\<^verbatim>\<open>this.playerState[player]\<close>: the own entry if there is one; otherwise
  \<^verbatim>\<open>undefined\<close> (\<open>None\<close>) for a slot, and the inherited object for an inherited name.
  (No run from a new session stores an own entry under an inherited name, since
  \<^verbatim>\<open>registerNewPlayer\<close> refuses these names.)\<close>

definition playerState_at :: "('g, 'mv, 'fs, 'i) session \<Rightarrow> ident \<Rightarrow> entry option" where
  "playerState_at s player =
     (case map_of (playerState s) player of
        Some ps \<Rightarrow> Some (Own ps)
      | None \<Rightarrow> (case player of Slot p \<Rightarrow> None | Inherited n \<Rightarrow> Some (Proto n)))"

text \<open>\<^verbatim>\<open>.connectedOnce\<close> of what was found. An inherited object has the property if it
  was set on that object or on \<^verbatim>\<open>Object.prototype\<close>, from which all of them inherit.\<close>

definition entry_connectedOnce :: "('g, 'mv, 'fs, 'i) session \<Rightarrow> entry \<Rightarrow> bool" where
  "entry_connectedOnce s e =
     (case e of
        Own ps \<Rightarrow> connectedOnce ps
      | Proto n \<Rightarrow>
          n \<in> set (inherited_connectedOnce s) \<or> N_proto \<in> set (inherited_connectedOnce s))"

text \<open>Is the key a slot from \<open>p\<close> on?\<close>

fun slot_from :: "player \<Rightarrow> ident \<Rightarrow> bool" where
  "slot_from p (Slot q) = (p \<le> q)"
| "slot_from p (Inherited n) = False"

text \<open>\<^verbatim>\<open>player = 1; while (this.playerState[player]) player++;\<close>: the loop ends because
  every round passes one more key of the table.\<close>

function registerNewPlayer_loop :: "(ident \<times> player_state) list \<Rightarrow> player \<Rightarrow> player" where
  "registerNewPlayer_loop ps p =
     (if map_of ps (Slot p) \<noteq> None then registerNewPlayer_loop ps (p + 1) else p)"
  by pat_completeness auto
termination
proof (relation "measure (\<lambda>(ps, p). length (filter (slot_from p) (map fst ps)))")
  show "wf (measure (\<lambda>(ps, p). length (filter (slot_from p) (map fst ps))))"
    by simp
next
  fix ps :: "(ident \<times> player_state) list" and p :: player
  assume "map_of ps (Slot p) \<noteq> None"
  then have mem: "Slot p \<in> set (filter (slot_from p) (map fst ps))"
    by (auto simp: map_of_eq_None_iff)
  have imp: "slot_from (p + 1) k \<Longrightarrow> slot_from p k" for k
    by (cases k) simp_all
  have "filter (slot_from (p + 1)) (map fst ps)
        = filter (slot_from (p + 1)) (filter (slot_from p) (map fst ps))"
    by (auto intro: filter_cong imp)
  moreover have "length (filter (slot_from (p + 1)) (filter (slot_from p) (map fst ps)))
        < length (filter (slot_from p) (map fst ps))"
    by (rule length_filter_less [OF mem]) simp
  ultimately have "length (filter (slot_from (p + 1)) (map fst ps))
        < length (filter (slot_from p) (map fst ps))"
    by (simp only:)
  then show "((ps, p + 1), (ps, p))
        \<in> measure (\<lambda>(ps, p). length (filter (slot_from p) (map fst ps)))"
    by (simp only: in_measure split_conv)
qed

declare registerNewPlayer_loop.simps [simp del]

text \<open>JavaScript's truthiness of the argument \<^verbatim>\<open>player\<close>: \<^verbatim>\<open>undefined\<close> and 0 are
  falsy, a name is a string that is not empty.\<close>

definition truthy_player :: "ident option \<Rightarrow> bool" where
  "truthy_player player =
     (case player of
        None \<Rightarrow> False
      | Some (Slot q) \<Rightarrow> q \<noteq> 0
      | Some (Inherited n) \<Rightarrow> True)"

text \<open>\<^verbatim>\<open>registerNewPlayer(player)\<close> returns \<^verbatim>\<open>null\<close> (\<open>None\<close>) or
  \<^verbatim>\<open>{ player, playerToken }\<close>. What \<^verbatim>\<open>this.playerState[player]\<close> finds is an object,
  so it is truthy whenever it is there. The token is
  \<^verbatim>\<open>crypto.randomBytes(20).toString("hex")\<close>: the random source is outside the program,
  so the drawn token is an argument. It is the hexadecimal text of 20 bytes, hence never
  one of the inherited names, and \<^verbatim>\<open>playerTokenTable\<close> gets an own entry for it.\<close>

definition registerNewPlayer ::
  "('g, 'mv, 'fs, 'pr, 'w) rules \<Rightarrow> ('g, 'mv, 'fs, 'i) session \<Rightarrow> ident option \<Rightarrow> token
     \<Rightarrow> (ident \<times> token) option \<times> ('g, 'mv, 'fs, 'i) session" where
  "registerNewPlayer R s player playerToken =
     (if truthy_player player \<and> playerState_at s (the player) \<noteq> None then (None, s)
      else if currentPlayerCount s = game_getPlayerCount R (game s) then (None, s)
      else
        let p = (if \<not> truthy_player player
                 then Slot (registerNewPlayer_loop (playerState s) 1)
                 else the player)
        in (Some (p, playerToken),
            s\<lparr>currentPlayerCount := currentPlayerCount s + 1,
              playerTokenTable := AList.update playerToken p (playerTokenTable s),
              playerState := AList.update p \<lparr>connectedOnce = False\<rparr> (playerState s)\<rparr>))"

text \<open>\<^verbatim>\<open>_onStateChange({ announceState = true, announceMove = true } = {})\<close>\<close>

definition onStateChange ::
  "('g, 'mv, 'fs, 'pr, 'w) rules \<Rightarrow> ('g, 'mv, 'fs, 'i) session \<Rightarrow> bool \<Rightarrow> bool
     \<Rightarrow> ('g, 'mv, 'fs, 'i) session" where
  "onStateChange R s announceState announceMove =
     (if \<not> game_isEnded R (game s) then
        let s1 = (if announceState then emit R s StateChange else s);
            s2 = (if announceMove
                  then emit R s1 (WaitingForMove (game_getNextPlayer R (game s1)))
                  else s1)
        in s2\<lparr>moveTimer := timer_start (moveTimer s2) (game_getMoveTimeLimit R (game s2))\<rparr>
      else
        emit R (s\<lparr>status := (if game_isError R (game s) then ERROR else ENDED)\<rparr>) End)"

text \<open>\<^verbatim>\<open>connect(player)\<close>: reading \<^verbatim>\<open>.connectedOnce\<close> of \<^verbatim>\<open>undefined\<close> throws a
  \<^verbatim>\<open>TypeError\<close> before anything is changed. Otherwise the property is read from what was
  found, and set on it after the count.\<close>

definition connect ::
  "('g, 'mv, 'fs, 'pr, 'w) rules \<Rightarrow> ('g, 'mv, 'fs, 'i) session \<Rightarrow> ident
     \<Rightarrow> error + ('g, 'mv, 'fs, 'i) session" where
  "connect R s player =
     (case playerState_at s player of
        None \<Rightarrow> Inl TypeError
      | Some e \<Rightarrow>
          if entry_connectedOnce s e then Inr s
          else
            let s0 = s\<lparr>connectedPlayerCount := connectedPlayerCount s + 1\<rparr>;
                s1 = (case e of
                        Own ps \<Rightarrow>
                          s0\<lparr>playerState :=
                               AList.update player (ps\<lparr>connectedOnce := True\<rparr>) (playerState s0)\<rparr>
                      | Proto n \<Rightarrow>
                          s0\<lparr>inherited_connectedOnce := n # inherited_connectedOnce s0\<rparr>)
            in if \<not> hasStarted s1
                  \<and> connectedPlayerCount s1 = game_getPlayerCount R (game s1)
               then Inr (onStateChange R (emit R (s1\<lparr>status := STARTED\<rparr>) Start) False True)
               else Inr s1)"

text \<open>\<^verbatim>\<open>move(player, move)\<close> returns \<^verbatim>\<open>null\<close> (\<open>None\<close>), \<^verbatim>\<open>false\<close> or \<^verbatim>\<open>true\<close>.
  The last argument is the time the clock shows when the timer is stopped.\<close>

definition move ::
  "('g, 'mv, 'fs, 'pr, 'w) rules \<Rightarrow> ('g, 'mv, 'fs, 'i) session \<Rightarrow> player \<Rightarrow> 'mv \<Rightarrow> nat
     \<Rightarrow> bool option \<times> ('g, 'mv, 'fs, 'i) session" where
  "move R s player mv elapsed =
     (if \<not> hasStarted s then (None, s)
      else if game_isEnded R (game s) \<or> \<not> game_isValidMove R (game s) player mv
      then (Some False, s)
      else
        let (moveTime, t) = timer_stop (moveTimer s) elapsed;
            s1 = s\<lparr>moveTimer := t, game := game_move R (game s) player mv moveTime\<rparr>;
            s2 = emit R s1 (MoveEvent player mv)
        in (Some True, onStateChange R s2 True True))"

text \<open>\<^verbatim>\<open>_onMoveTimeout()\<close>, the callback of the timer.\<close>

definition onMoveTimeout ::
  "('g, 'mv, 'fs, 'pr, 'w) rules \<Rightarrow> ('g, 'mv, 'fs, 'i) session \<Rightarrow> ('g, 'mv, 'fs, 'i) session" where
  "onMoveTimeout R s =
     (let oldNextPlayer = game_getNextPlayer R (game s);
          (changed, g) = game_onMoveTimeout R (game s);
          s1 = s\<lparr>game := g\<rparr>
      in if changed
         then onStateChange R s1 True (game_getNextPlayer R (game s1) \<noteq> oldNextPlayer)
         else s1)"

text \<open>Modelled from the spec: the firing of \<^verbatim>\<open>utils/timer\<close>, which is not among the
  sources. A pending schedule fires once: it is no longer pending when the callback
  runs, and a timer with nothing pending does not fire.\<close>

definition timer_fire ::
  "('g, 'mv, 'fs, 'pr, 'w) rules \<Rightarrow> ('g, 'mv, 'fs, 'i) session \<Rightarrow> ('g, 'mv, 'fs, 'i) session" where
  "timer_fire R s =
     (if running (moveTimer s) = None then s
      else onMoveTimeout R (s\<lparr>moveTimer := (moveTimer s)\<lparr>running := None\<rparr>\<rparr>))"

subsection \<open>Sequences of operations\<close>

text \<open>What reaches a session from outside: the three calls of the route, and the timer.
  A \<^verbatim>\<open>connect\<close> that throws leaves the session as it was.\<close>

datatype 'mv operation =
    Register "ident option" token
  | Connect ident
  | Move player 'mv nat
  | TimerFire

definition step ::
  "('g, 'mv, 'fs, 'pr, 'w) rules \<Rightarrow> ('g, 'mv, 'fs, 'i) session \<Rightarrow> 'mv operation
     \<Rightarrow> ('g, 'mv, 'fs, 'i) session" where
  "step R s operation =
     (case operation of
        Register player playerToken \<Rightarrow> snd (registerNewPlayer R s player playerToken)
      | Connect player \<Rightarrow> (case connect R s player of Inl e \<Rightarrow> s | Inr s' \<Rightarrow> s')
      | Move player mv elapsed \<Rightarrow> snd (move R s player mv elapsed)
      | TimerFire \<Rightarrow> timer_fire R s)"

definition run ::
  "('g, 'mv, 'fs, 'pr, 'w) rules \<Rightarrow> ('g, 'mv, 'fs, 'i) session \<Rightarrow> 'mv operation list
     \<Rightarrow> ('g, 'mv, 'fs, 'i) session" where
  "run R s ops = foldl (step R) s ops"

subsection \<open>A concrete game for the closed instances\<close>

text \<open>A counting game for two players: the state is the count and the player to move;
  a move adds its payload to the count and passes the turn; the game ends at 3 and is in
  error from 5 on; a timeout costs one point below 2 and leaves the turn where it is.\<close>

definition counting_game :: "(nat \<times> int, nat, nat \<times> int, unit, int) rules" where
  "counting_game =
     \<lparr>game_getPlayerCount = (\<lambda>g. 2),
      game_getParams = (\<lambda>g. ()),
      game_getNextPlayer = snd,
      game_isValidMove = (\<lambda>g p m. p = snd g \<and> 1 \<le> m),
      game_move = (\<lambda>g p m t. (fst g + m, 3 - snd g)),
      game_isEnded = (\<lambda>g. 3 \<le> fst g),
      game_isError = (\<lambda>g. 5 \<le> fst g),
      game_getWinner = (\<lambda>g. 3 - snd g),
      game_getFullState = (\<lambda>g. Some g),
      fullState_truthy = (\<lambda>fs. True),
      game_getMoveTimeLimit = (\<lambda>g. 1000),
      game_onMoveTimeout = (\<lambda>g. if fst g < 2 then (True, (fst g + 1, snd g)) else (False, g))\<rparr>"

definition new_session :: "(nat \<times> int, nat, nat \<times> int, string) session" where
  "new_session = GameInstance ''g1'' (0, 1)"

definition started_session :: "(nat \<times> int, nat, nat \<times> int, string) session" where
  "started_session =
     run counting_game new_session
       [Register None ''aa'', Register None ''bb'', Connect (Slot 1), Connect (Slot 2)]"

definition one_connected :: "(nat \<times> int, nat, nat \<times> int, string) session" where
  "one_connected =
     run counting_game new_session
       [Register None ''aa'', Register None ''bb'', Connect (Slot 1)]"

text \<open>The same game created at a count where it has already ended.\<close>

definition ended_at_start :: "(nat \<times> int, nat, nat \<times> int, string) session" where
  "ended_at_start =
     run counting_game (GameInstance ''g2'' (3, 1))
       [Register None ''aa'', Register None ''bb'', Connect (Slot 1)]"

subsection \<open>Predicates on runs\<close>

text \<open>The players that the registrations of a sequence of operations hand out.\<close>

fun registered ::
  "('g, 'mv, 'fs, 'pr, 'w) rules \<Rightarrow> ('g, 'mv, 'fs, 'i) session \<Rightarrow> 'mv operation list
     \<Rightarrow> ident list" where
  "registered R s [] = []"
| "registered R s (operation # ops) =
     (case operation of
        Register player playerToken \<Rightarrow>
          (case fst (registerNewPlayer R s player playerToken) of
             None \<Rightarrow> []
           | Some r \<Rightarrow> [fst r])
      | Connect player \<Rightarrow> []
      | Move player mv elapsed \<Rightarrow> []
      | TimerFire \<Rightarrow> [])
     @ registered R (step R s operation) ops"


text \<open>\<^verbatim>\<open>start\<close> is emitted only by a session that has not started, which has started
  from then on.\<close>

definition start_once :: "('g, 'mv, 'fs, 'i) session \<Rightarrow> bool" where
  "start_once s =
     (count_list (emitted s) Start \<le> 1 \<and> (\<not> hasStarted s \<longrightarrow> count_list (emitted s) Start = 0))"

subsection \<open>The order of the statuses, and the sessions that a run visits\<close>

text \<open>\<open>status_le a b\<close>: the status \<open>b\<close> is \<open>a\<close> or comes after it along
  \<^verbatim>\<open>NOT_STARTED\<close>, \<^verbatim>\<open>STARTED\<close>, then \<^verbatim>\<open>ENDED\<close> or \<^verbatim>\<open>ERROR\<close>.\<close>

fun status_le :: "GameStatus \<Rightarrow> GameStatus \<Rightarrow> bool" where
  "status_le NOT_STARTED b = True"
| "status_le STARTED b = (b \<noteq> NOT_STARTED)"
| "status_le ENDED b = (b = ENDED)"
| "status_le ERROR b = (b = ERROR)"

text \<open>The session before each operation of a sequence, and the one after the last.\<close>

fun visited ::
  "('g, 'mv, 'fs, 'pr, 'w) rules \<Rightarrow> ('g, 'mv, 'fs, 'i) session \<Rightarrow> 'mv operation list
     \<Rightarrow> ('g, 'mv, 'fs, 'i) session list" where
  "visited R s [] = [s]"
| "visited R s (operation # ops) = s # visited R (step R s operation) ops"

text \<open>What holds of the status, the game and the timer in every session that a run
  from a new session visits.\<close>

definition consistent ::
  "('g, 'mv, 'fs, 'pr, 'w) rules \<Rightarrow> ('g, 'mv, 'fs, 'i) session \<Rightarrow> bool" where
  "consistent R s =
     ((status s = NOT_STARTED \<longrightarrow> running (moveTimer s) = None) \<and>
      (status s = ENDED \<or> status s = ERROR \<longrightarrow>
         game_isEnded R (game s) \<and> running (moveTimer s) = None) \<and>
      (status s = ERROR \<longrightarrow> game_isError R (game s)))"

subsection \<open>Snapshots that follow each other in the history\<close>

text \<open>No two entries next to each other are both state snapshots.\<close>

fun no_consecutive_snapshots :: "('fs, 'mv) hist_event list \<Rightarrow> bool" where
  "no_consecutive_snapshots [] = True"
| "no_consecutive_snapshots [e] = True"
| "no_consecutive_snapshots (StateSnapshot a # StateSnapshot b # es) = False"
| "no_consecutive_snapshots (e # e' # es) = no_consecutive_snapshots (e' # es)"




section \<open>Properties\<close>

subsection \<open>What each method leaves alone\<close>

lemma emit_fields [simp]:
  "id' (emit R s e) = id' s"
  "game (emit R s e) = game s"
  "status (emit R s e) = status s"
  "moveTimer (emit R s e) = moveTimer s"
  "currentPlayerCount (emit R s e) = currentPlayerCount s"
  "connectedPlayerCount (emit R s e) = connectedPlayerCount s"
  "playerTokenTable (emit R s e) = playerTokenTable s"
  "playerState (emit R s e) = playerState s"
  "inherited_connectedOnce (emit R s e) = inherited_connectedOnce s"
  "emitted (emit R s e) = emitted s @ [e]"
  by (cases e; simp add: emit_def on_start_stateChange_def on_move_def Let_def
        split: option.splits)+

lemma on_start_stateChange_history:
  "history (on_start_stateChange R s) =
     \<lparr>events = events (history s) @
        (case next' (history s) of
           None \<Rightarrow> []
         | Some fs \<Rightarrow> if fullState_truthy R fs then [StateSnapshot fs] else []),
      next' = game_getFullState R (game s)\<rparr>"
  by (simp add: on_start_stateChange_def Let_def deepcopy_def split: option.splits)


lemma emit_history:
  "history (emit R s e) =
     (case e of
        Start \<Rightarrow> history (on_start_stateChange R s)
      | StateChange \<Rightarrow> history (on_start_stateChange R s)
      | MoveEvent p m \<Rightarrow> history (on_move s p m)
      | WaitingForMove p \<Rightarrow> history s
      | End \<Rightarrow> history s)"
  by (cases e) (simp_all add: emit_def on_start_stateChange_def on_move_def Let_def
        split: option.splits)

lemma onStateChange_fields [simp]:
  "id' (onStateChange R s a b) = id' s"
  "game (onStateChange R s a b) = game s"
  "currentPlayerCount (onStateChange R s a b) = currentPlayerCount s"
  "connectedPlayerCount (onStateChange R s a b) = connectedPlayerCount s"
  "playerTokenTable (onStateChange R s a b) = playerTokenTable s"
  "playerState (onStateChange R s a b) = playerState s"
  "inherited_connectedOnce (onStateChange R s a b) = inherited_connectedOnce s"
  by (simp_all add: onStateChange_def Let_def)

lemma onStateChange_status:
  "status (onStateChange R s a b) =
     (if game_isEnded R (game s)
      then (if game_isError R (game s) then ERROR else ENDED)
      else status s)"
  by (simp add: onStateChange_def Let_def)

lemma onStateChange_moveTimer:
  "moveTimer (onStateChange R s a b) =
     (if game_isEnded R (game s) then moveTimer s
      else timer_start (moveTimer s) (game_getMoveTimeLimit R (game s)))"
  by (simp add: onStateChange_def Let_def)

lemma onStateChange_emitted:
  "emitted (onStateChange R s a b) =
     emitted s @
     (if game_isEnded R (game s) then [End]
      else (if a then [StateChange] else []) @
           (if b then [WaitingForMove (game_getNextPlayer R (game s))] else []))"
  by (simp add: onStateChange_def Let_def)

lemma onStateChange_history:
  "history (onStateChange R s a b) =
     (if \<not> game_isEnded R (game s) \<and> a then history (on_start_stateChange R s)
      else history s)"
  by (simp add: onStateChange_def Let_def emit_history)

subsection \<open>The cases of \<^verbatim>\<open>connect\<close>\<close>

lemma connect_first_time:
  assumes "map_of (playerState s) p = Some ps" and "\<not> connectedOnce ps"
  shows "connect R s p =
     (let s1 = s\<lparr>connectedPlayerCount := connectedPlayerCount s + 1,
                playerState := AList.update p (ps\<lparr>connectedOnce := True\<rparr>) (playerState s)\<rparr>
      in if status s = NOT_STARTED \<and> connectedPlayerCount s + 1 = game_getPlayerCount R (game s)
         then Inr (onStateChange R (emit R (s1\<lparr>status := STARTED\<rparr>) Start) False True)
         else Inr s1)"
  using assms
  by (simp add: connect_def playerState_at_def entry_connectedOnce_def Let_def hasStarted_def)

lemma connect_again:
  assumes "map_of (playerState s) p = Some ps" and "connectedOnce ps"
  shows "connect R s p = Inr s"
  using assms by (simp add: connect_def playerState_at_def entry_connectedOnce_def)

lemma connect_unregistered_slot:
  "map_of (playerState s) (Slot p) = None \<Longrightarrow> connect R s (Slot p) = Inl TypeError"
  by (simp add: connect_def playerState_at_def)

lemma connect_inherited:
  assumes "map_of (playerState s) (Inherited n) = None"
  shows "connect R s (Inherited n) =
     (if n \<in> set (inherited_connectedOnce s) \<or> N_proto \<in> set (inherited_connectedOnce s)
      then Inr s
      else
        let s1 = s\<lparr>connectedPlayerCount := connectedPlayerCount s + 1,
                   inherited_connectedOnce := n # inherited_connectedOnce s\<rparr>
        in if status s = NOT_STARTED
              \<and> connectedPlayerCount s + 1 = game_getPlayerCount R (game s)
           then Inr (onStateChange R (emit R (s1\<lparr>status := STARTED\<rparr>) Start) False True)
           else Inr s1)"
  using assms
  by (simp add: connect_def playerState_at_def entry_connectedOnce_def Let_def hasStarted_def)

text \<open>A \<^verbatim>\<open>connect\<close> that returns has changed nothing, or has counted one connection, or
  has counted one connection and started the session.\<close>

lemma connect_Inr [consumes 1, case_names unchanged counted started]:
  assumes "connect R s k = Inr s'"
  obtains (unchanged) "s' = s"
  | (counted) "game s' = game s" and "status s' = status s" and "moveTimer s' = moveTimer s"
      and "history s' = history s" and "emitted s' = emitted s"
      and "connectedPlayerCount s' = connectedPlayerCount s + 1"
      and "dom (map_of (playerState s')) = dom (map_of (playerState s))"
  | (started) s1 where "game s1 = game s" and "moveTimer s1 = moveTimer s"
      and "history s1 = history s" and "emitted s1 = emitted s"
      and "connectedPlayerCount s1 = connectedPlayerCount s + 1"
      and "dom (map_of (playerState s1)) = dom (map_of (playerState s))"
      and "status s = NOT_STARTED"
      and "s' = onStateChange R (emit R (s1\<lparr>status := STARTED\<rparr>) Start) False True"
proof (cases "map_of (playerState s) k")
  case (Some ps)
  show ?thesis
  proof (cases "connectedOnce ps")
    case True
    with Some assms have "s' = s" by (simp add: connect_again)
    then show ?thesis by (rule unchanged)
  next
    case False
    let ?s1 = "s\<lparr>connectedPlayerCount := connectedPlayerCount s + 1,
                  playerState := AList.update k (ps\<lparr>connectedOnce := True\<rparr>) (playerState s)\<rparr>"
    have cf: "connect R s k =
       (if status s = NOT_STARTED
              \<and> connectedPlayerCount s + 1 = game_getPlayerCount R (game s)
        then Inr (onStateChange R (emit R (?s1\<lparr>status := STARTED\<rparr>) Start) False True)
        else Inr ?s1)"
      using connect_first_time [OF Some False, of R] unfolding Let_def .
    have d: "dom (map_of (playerState ?s1)) = dom (map_of (playerState s))"
      using Some by (auto simp: AList.update_conv')
    show ?thesis
    proof (cases "status s = NOT_STARTED
              \<and> connectedPlayerCount s + 1 = game_getPlayerCount R (game s)")
      case True
      with cf assms
      have eq: "s' = onStateChange R (emit R (?s1\<lparr>status := STARTED\<rparr>) Start) False True"
        by simp
      show ?thesis
        by (rule started [of ?s1]) (use True d eq in simp_all)
    next
      case False
      with cf assms have eq: "s' = ?s1" by auto
      show ?thesis
        by (rule counted) (use d eq in simp_all)
    qed
  qed
next
  case None
  show ?thesis
  proof (cases k)
    case (Slot p)
    with None assms show ?thesis by (simp add: connect_unregistered_slot)
  next
    case (Inherited n)
    let ?s1 = "s\<lparr>connectedPlayerCount := connectedPlayerCount s + 1,
                   inherited_connectedOnce := n # inherited_connectedOnce s\<rparr>"
    from None Inherited have none: "map_of (playerState s) (Inherited n) = None"
      by simp
    note ci = connect_inherited [OF none, of R, unfolded Let_def]
    show ?thesis
    proof (cases "n \<in> set (inherited_connectedOnce s)
                  \<or> N_proto \<in> set (inherited_connectedOnce s)")
      case True
      with ci assms Inherited have "s' = s" by simp
      then show ?thesis by (rule unchanged)
    next
      case False
      note flag = False
      show ?thesis
      proof (cases "status s = NOT_STARTED
              \<and> connectedPlayerCount s + 1 = game_getPlayerCount R (game s)")
        case True
        with ci flag assms Inherited
        have eq: "s' = onStateChange R (emit R (?s1\<lparr>status := STARTED\<rparr>) Start) False True"
          by simp
        show ?thesis
          by (rule started [of ?s1]) (use True eq in simp_all)
      next
        case False
        with ci flag assms Inherited have eq: "s' = ?s1" by auto
        show ?thesis
          by (rule counted) (use eq in simp_all)
      qed
    qed
  qed
qed

text \<open>After a \<^verbatim>\<open>connect\<close> that returned, the same \<^verbatim>\<open>connect\<close> changes nothing.\<close>

lemma connect_twice:
  assumes "connect R s k = Inr s'"
  shows "connect R s' k = Inr s'"
proof (cases "map_of (playerState s) k")
  case (Some ps)
  show ?thesis
  proof (cases "connectedOnce ps")
    case True
    with Some assms show ?thesis by (simp add: connect_again)
  next
    case False
    from assms connect_first_time [OF Some False, of R]
    have "map_of (playerState s') k = Some (ps\<lparr>connectedOnce := True\<rparr>)"
      by (auto simp: Let_def AList.update_conv' split: if_splits)
    then show ?thesis by (rule connect_again) simp
  qed
next
  case None
  show ?thesis
  proof (cases k)
    case (Slot p)
    with None assms show ?thesis by (simp add: connect_unregistered_slot)
  next
    case (Inherited n)
    from None Inherited have none: "map_of (playerState s) (Inherited n) = None"
      by simp
    from assms Inherited connect_inherited [OF none, of R]
    have "playerState s' = playerState s \<and>
        (n \<in> set (inherited_connectedOnce s') \<or> N_proto \<in> set (inherited_connectedOnce s'))"
      by (auto simp: Let_def split: if_splits)
    with none have "map_of (playerState s') (Inherited n) = None"
      and "n \<in> set (inherited_connectedOnce s') \<or> N_proto \<in> set (inherited_connectedOnce s')"
      by simp_all
    with Inherited show ?thesis by (simp add: connect_inherited)
  qed
qed

lemma connect_playerState_dom:
  assumes "connect R s p = Inr s'"
  shows "dom (map_of (playerState s')) = dom (map_of (playerState s))"
  using assms
proof (cases rule: connect_Inr)
  case unchanged
  then show ?thesis by simp
next
  case counted
  then show ?thesis by simp
next
  case (started s1)
  from started(8) have "playerState s' = playerState s1"
    by simp
  with started(6) show ?thesis by simp
qed

subsection \<open>The value that \<^verbatim>\<open>move\<close> returns\<close>

text \<open>
  Claim C6. \<^verbatim>\<open>move(player, payload)\<close> returns \<^verbatim>\<open>null\<close> (the value for "not
  applicable") when the session has not started and changes nothing; it returns
  \<^verbatim>\<open>false\<close> when the session has started and the game has ended or reports the move
  invalid for that player, and changes nothing; it returns \<^verbatim>\<open>true\<close> exactly when the
  move is applied, and then the game is the one that the rules module's \<^verbatim>\<open>move\<close>
  produced and the \<^verbatim>\<open>move\<close> event was emitted. The three values are distinct.
\<close>

theorem move_return_value:
  "(\<not> hasStarted s \<longrightarrow> move R s p mv el = (None, s)) \<and>
   (hasStarted s \<and> (game_isEnded R (game s) \<or> \<not> game_isValidMove R (game s) p mv)
      \<longrightarrow> move R s p mv el = (Some False, s)) \<and>
   (fst (move R s p mv el) = Some True \<longleftrightarrow>
      hasStarted s \<and> \<not> game_isEnded R (game s) \<and> game_isValidMove R (game s) p mv) \<and>
   (fst (move R s p mv el) = Some True \<longrightarrow>
      game (snd (move R s p mv el))
        = game_move R (game s) p mv (fst (timer_stop (moveTimer s) el))
      \<and> MoveEvent p mv \<in> set (emitted (snd (move R s p mv el)))) \<and>
   (None :: bool option) \<noteq> Some False \<and> Some False \<noteq> Some True \<and>
   (None :: bool option) \<noteq> Some True"
  by (simp add: move_def Let_def split_beta onStateChange_emitted)

theorem move_return_value_witness:
  "\<not> hasStarted new_session \<and> move counting_game new_session 1 1 0 = (None, new_session) \<and>
   hasStarted started_session \<and> \<not> game_isValidMove counting_game (game started_session) 2 1 \<and>
   move counting_game started_session 2 1 0 = (Some False, started_session) \<and>
   fst (move counting_game started_session 1 1 0) = Some True \<and>
   game (snd (move counting_game started_session 1 1 0)) = (1, 2)"
proof -
  have a: "\<not> hasStarted new_session"
    by code_simp
  have b: "hasStarted started_session \<and>
      (game_isEnded counting_game (game started_session)
       \<or> \<not> game_isValidMove counting_game (game started_session) 2 1)"
    by code_simp
  have b': "hasStarted started_session \<and>
     \<not> game_isValidMove counting_game (game started_session) 2 1"
    by code_simp
  have c: "fst (move counting_game started_session 1 1 0) = Some True"
    by code_simp
  have d: "game_move counting_game (game started_session) 1 1
             (fst (timer_stop (moveTimer started_session) 0)) = (1, 2)"
    by code_simp
  note t1 = move_return_value [of new_session counting_game 1 1 0]
  note t2 = move_return_value [of started_session counting_game 2 1 0]
  note t3 = move_return_value [of started_session counting_game 1 1 0]
  from t1 a have r1: "move counting_game new_session 1 1 0 = (None, new_session)"
    by blast
  from t2 b have r2: "move counting_game started_session 2 1 0 = (Some False, started_session)"
    by blast
  from t3 c d have r3: "game (snd (move counting_game started_session 1 1 0)) = (1, 2)"
    by simp
  from a b' c r1 r2 r3 show ?thesis
    by blast
qed

subsection \<open>Runs, and the players they register\<close>

lemma run_Nil [simp]: "run R s [] = s"
  by (simp add: run_def)

lemma run_Cons [simp]: "run R s (operation # ops) = run R (step R s operation) ops"
  by (simp add: run_def)

lemma run_append: "run R s (ops @ ops') = run R (run R s ops) ops'"
  by (simp add: run_def)

lemma move_playerState [simp]:
  "playerState (snd (move R s p mv el)) = playerState s"
  by (simp add: move_def Let_def split_beta)

lemma onMoveTimeout_playerState [simp]:
  "playerState (onMoveTimeout R s) = playerState s"
  by (simp add: onMoveTimeout_def Let_def split_beta)

lemma timer_fire_playerState [simp]:
  "playerState (timer_fire R s) = playerState s"
  by (simp add: timer_fire_def)

lemma registerNewPlayer_dom:
  "dom (map_of (playerState (snd (registerNewPlayer R s pl tok))))
     = dom (map_of (playerState s))
       \<union> (case fst (registerNewPlayer R s pl tok) of None \<Rightarrow> {} | Some r \<Rightarrow> {fst r})"
  by (simp add: registerNewPlayer_def Let_def AList.update_conv')

lemma registerNewPlayer_not_inherited:
  "fst (registerNewPlayer R s pl tok) = Some r \<Longrightarrow> fst r \<noteq> Inherited n"
  by (auto simp: registerNewPlayer_def Let_def truthy_player_def playerState_at_def
      split: if_splits option.splits ident.splits)

lemma step_playerState_dom:
  "dom (map_of (playerState (step R s operation)))
     = dom (map_of (playerState s)) \<union> set (registered R s [operation])"
proof (cases operation)
  case (Register pl tok)
  then show ?thesis
    by (simp add: step_def registerNewPlayer_dom split: option.splits)
next
  case (Connect p)
  show ?thesis
  proof (cases "connect R s p")
    case (Inl e)
    with Connect show ?thesis by (simp add: step_def)
  next
    case (Inr s')
    with Connect connect_playerState_dom [OF Inr] show ?thesis by (simp add: step_def)
  qed
next
  case (Move p mv el)
  then show ?thesis by (simp add: step_def)
next
  case TimerFire
  then show ?thesis by (simp add: step_def)
qed

lemma registered_single:
  "registered R s (operation # ops)
     = registered R s [operation] @ registered R (step R s operation) ops"
  by simp

lemma run_playerState_dom:
  "dom (map_of (playerState (run R s ops)))
     = dom (map_of (playerState s)) \<union> set (registered R s ops)"
proof (induction ops arbitrary: s)
  case Nil
  show ?case by simp
next
  case (Cons operation ops)
  have "dom (map_of (playerState (run R s (operation # ops))))
      = dom (map_of (playerState (step R s operation)))
        \<union> set (registered R (step R s operation) ops)"
    using Cons.IH [of "step R s operation"] by simp
  also have "\<dots> = dom (map_of (playerState s)) \<union> set (registered R s [operation])
        \<union> set (registered R (step R s operation) ops)"
    by (simp only: step_playerState_dom)
  also have "\<dots> = dom (map_of (playerState s)) \<union> set (registered R s (operation # ops))"
    by (subst (2) registered_single) (simp only: set_append Un_assoc)
  finally show ?case .
qed

subsection \<open>\<^verbatim>\<open>connect\<close> of a player that was never registered\<close>

lemma registered_not_inherited:
  "Inherited n \<notin> set (registered R s ops)"
proof (induction ops arbitrary: s)
  case Nil
  show ?case by simp
next
  case (Cons operation ops)
  have "Inherited n \<notin> set (registered R s [operation])"
  proof (cases operation)
    case (Register pl tok)
    show ?thesis
    proof (cases "fst (registerNewPlayer R s pl tok)")
      case None
      with Register show ?thesis by simp
    next
      case (Some r)
      from registerNewPlayer_not_inherited [OF Some] have "fst r \<noteq> Inherited n" .
      with Register Some show ?thesis by simp
    qed
  qed simp_all
  with Cons.IH [of "step R s operation"] show ?case
    by (subst registered_single) (simp only: set_append Un_iff simp_thms not_False_eq_True)
qed

lemma run_no_inherited_entry:
  assumes "map_of (playerState s) (Inherited n) = None"
  shows "map_of (playerState (run R s ops)) (Inherited n) = None"
proof -
  have "Inherited n \<notin> dom (map_of (playerState (run R s ops)))"
    using assms registered_not_inherited [of n R s ops]
    by (simp only: run_playerState_dom Un_iff) blast
  then show ?thesis by blast
qed

text \<open>
  Claim C10, as the code has it. For an integer slot that has no entry in
  \<^verbatim>\<open>playerState\<close>, \<^verbatim>\<open>connect\<close> throws (a \<^verbatim>\<open>TypeError\<close>, from reading \<^verbatim>\<open>connectedOnce\<close>
  of \<^verbatim>\<open>undefined\<close>): it neither returns nor acts as a no-op. That is the case of every
  slot in a new session, and, after any sequence of operations on a new session, of every
  slot that none of the registrations of the sequence handed out. For a name that
  \<^verbatim>\<open>playerState\<close> inherits from \<^verbatim>\<open>Object.prototype\<close>, which no run from a new session ever
  registers, \<^verbatim>\<open>connect\<close> never throws: it changes nothing if the inherited object, or
  \<^verbatim>\<open>Object.prototype\<close>, carries \<^verbatim>\<open>connectedOnce\<close>; otherwise it counts a connection and
  sets \<^verbatim>\<open>connectedOnce\<close> on the inherited object.
\<close>

theorem connect_unregistered_throws:
  fixes s :: "('g, 'mv, 'fs, 'i) session" and R :: "('g, 'mv, 'fs, 'pr, 'w) rules"
    and i :: 'i
  shows
  "(map_of (playerState s) (Slot p) = None \<longrightarrow> connect R s (Slot p) = Inl TypeError) \<and>
   connect R (GameInstance i g) (Slot p) = Inl TypeError \<and>
   (Slot p \<notin> set (registered R (GameInstance i g) ops)
      \<longrightarrow> connect R (run R (GameInstance i g) ops) (Slot p) = Inl TypeError) \<and>
   connect R s (Inherited n) \<noteq> Inl TypeError \<and>
   map_of (playerState (run R (GameInstance i g :: ('g, 'mv, 'fs, 'i) session) ops))
     (Inherited n) = None \<and>
   (map_of (playerState s) (Inherited n) = None
      \<and> (n \<in> set (inherited_connectedOnce s) \<or> N_proto \<in> set (inherited_connectedOnce s))
    \<longrightarrow> connect R s (Inherited n) = Inr s) \<and>
   (map_of (playerState s) (Inherited n) = None
      \<and> n \<notin> set (inherited_connectedOnce s) \<and> N_proto \<notin> set (inherited_connectedOnce s)
    \<longrightarrow> (\<exists>s'. connect R s (Inherited n) = Inr s' \<and>
           connectedPlayerCount s' = connectedPlayerCount s + 1 \<and>
           inherited_connectedOnce s' = n # inherited_connectedOnce s \<and>
           playerState s' = playerState s))"
proof -
  have a: "connect R t (Slot p) = Inl TypeError" if "map_of (playerState t) (Slot p) = None"
    for t :: "('g, 'mv, 'fs, 'i) session"
    using that by (rule connect_unregistered_slot)
  have b: "map_of (playerState (GameInstance i g :: ('g, 'mv, 'fs, 'i) session)) k = None" for k
    by (simp add: GameInstance_def)
  have c: "map_of (playerState (run R (GameInstance i g) ops)) (Slot p) = None"
    if "Slot p \<notin> set (registered R (GameInstance i g) ops)"
  proof -
    have "Slot p \<notin> dom (map_of (playerState (run R (GameInstance i g) ops)))"
      using that by (simp add: run_playerState_dom GameInstance_def)
    then show ?thesis by blast
  qed
  have d: "connect R s (Inherited n) \<noteq> Inl TypeError"
    by (simp add: connect_def playerState_at_def Let_def split: option.splits)
  have e: "map_of (playerState (run R (GameInstance i g :: ('g, 'mv, 'fs, 'i) session) ops))
     (Inherited n) = None"
    by (rule run_no_inherited_entry [OF b])
  have f: "connect R s (Inherited n) = Inr s"
    if "map_of (playerState s) (Inherited n) = None
      \<and> (n \<in> set (inherited_connectedOnce s) \<or> N_proto \<in> set (inherited_connectedOnce s))"
    using that by (simp add: connect_inherited)
  have g: "\<exists>s'. connect R s (Inherited n) = Inr s' \<and>
           connectedPlayerCount s' = connectedPlayerCount s + 1 \<and>
           inherited_connectedOnce s' = n # inherited_connectedOnce s \<and>
           playerState s' = playerState s"
    if "map_of (playerState s) (Inherited n) = None
      \<and> n \<notin> set (inherited_connectedOnce s) \<and> N_proto \<notin> set (inherited_connectedOnce s)"
    using that by (simp add: connect_inherited Let_def)
  from a b [of "Slot p"] c d e f g show ?thesis by blast
qed

theorem connect_unregistered_throws_witness:
  "map_of (playerState started_session) (Slot 3) = None \<and>
   connect counting_game started_session (Slot 3) = Inl TypeError \<and>
   Slot 3 \<notin> set (registered counting_game (GameInstance ''g1'' (0, 1))
             [Register None ''aa'', Register None ''bb'', Connect (Slot 1), Connect (Slot 2)]) \<and>
   connect counting_game
     (run counting_game (GameInstance ''g1'' (0, 1))
        [Register None ''aa'', Register None ''bb'', Connect (Slot 1), Connect (Slot 2)])
     (Slot 3)
   = Inl TypeError \<and>
   map_of (playerState new_session) (Inherited N_toString) = None \<and>
   N_toString \<notin> set (inherited_connectedOnce new_session) \<and>
   N_proto \<notin> set (inherited_connectedOnce new_session) \<and>
   (\<exists>s'. connect counting_game new_session (Inherited N_toString) = Inr s' \<and>
      connectedPlayerCount s' = 1 \<and> inherited_connectedOnce s' = [N_toString])"
proof -
  have a: "map_of (playerState started_session) (Slot 3) = None"
    by code_simp
  have b: "Slot 3 \<notin> set (registered counting_game
             (GameInstance ''g1'' (0, 1) :: (nat \<times> int, nat, nat \<times> int, string) session)
             [Register None ''aa'', Register None ''bb'', Connect (Slot 1), Connect (Slot 2)])"
    by code_simp
  have c: "map_of (playerState new_session) (Inherited N_toString) = None"
    "N_toString \<notin> set (inherited_connectedOnce new_session)"
    "N_proto \<notin> set (inherited_connectedOnce new_session)"
    "connectedPlayerCount new_session = 0" "inherited_connectedOnce new_session = []"
    by code_simp+
  note t1 = connect_unregistered_throws
    [of started_session 3 counting_game "''g1''" "(0, 1)" "[]" N_toString]
  note t2 = connect_unregistered_throws
    [of started_session 3 counting_game "''g1''" "(0, 1)"
        "[Register None ''aa'', Register None ''bb'', Connect (Slot 1), Connect (Slot 2)]"
        N_toString]
  note t3 = connect_unregistered_throws
    [of new_session 3 counting_game "''g1''" "(0, 1)" "[]" N_toString]
  from t3 c(1-3) obtain s' where
    "connect counting_game new_session (Inherited N_toString) = Inr s'"
    "connectedPlayerCount s' = connectedPlayerCount new_session + 1"
    "inherited_connectedOnce s' = N_toString # inherited_connectedOnce new_session"
    by blast
  with c(4,5) have d: "\<exists>s'. connect counting_game new_session (Inherited N_toString) = Inr s' \<and>
      connectedPlayerCount s' = 1 \<and> inherited_connectedOnce s' = [N_toString]"
    by simp
  from a b c(1-3) d t1 t2 show ?thesis by blast
qed

text \<open>The claim as the spec states it, for every identifier that was never registered,
  fails at the names that \<^verbatim>\<open>playerState\<close> inherits. In a new session nobody is
  registered, and \<^verbatim>\<open>connect("constructor")\<close> returns with one connection counted;
  together with \<^verbatim>\<open>connect("toString")\<close> it starts the game of two players.\<close>

theorem connect_unregistered_counterexample:
  "map_of (playerState new_session) (Inherited N_constructor) = None \<and>
   Inherited N_constructor \<notin> set (registered counting_game new_session []) \<and>
   connect counting_game new_session (Inherited N_constructor) \<noteq> Inl TypeError \<and>
   connect counting_game new_session (Inherited N_constructor)
     = Inr (new_session\<lparr>connectedPlayerCount := 1,
                         inherited_connectedOnce := [N_constructor]\<rparr>) \<and>
   currentPlayerCount
     (run counting_game new_session
        [Connect (Inherited N_constructor), Connect (Inherited N_toString)]) = 0 \<and>
   status
     (run counting_game new_session
        [Connect (Inherited N_constructor), Connect (Inherited N_toString)]) = STARTED"
  by code_simp

subsection \<open>The summary of a session\<close>

text \<open>
  Claim C3, as the code has it. The summary that \<^verbatim>\<open>getInfo\<close> returns always holds
  the identifier, the params of the game, the number of connected players, the number of
  players of the game and the status; it holds \<^verbatim>\<open>nextPlayer\<close> exactly while the status
  is \<^verbatim>\<open>STARTED\<close>, and \<^verbatim>\<open>winner\<close> exactly while the status is \<^verbatim>\<open>ENDED\<close> (not while
  it is \<^verbatim>\<open>ERROR\<close>).
\<close>

theorem getInfo_fields:
  "info_gameId (getInfo R s) = id' s \<and>
   info_params (getInfo R s) = game_getParams R (game s) \<and>
   info_connectedPlayers (getInfo R s) = connectedPlayerCount s \<and>
   info_players (getInfo R s) = game_getPlayerCount R (game s) \<and>
   info_status (getInfo R s) = status s \<and>
   (info_nextPlayer (getInfo R s) \<noteq> None \<longleftrightarrow> status s = STARTED) \<and>
   (status s = STARTED \<longrightarrow>
      info_nextPlayer (getInfo R s) = Some (Some (game_getNextPlayer R (game s)))) \<and>
   (info_winner (getInfo R s) \<noteq> None \<longleftrightarrow> status s = ENDED) \<and>
   (status s = ENDED \<longrightarrow>
      info_winner (getInfo R s) = Some (Some (game_getWinner R (game s))))"
  by (simp add: getInfo_def getNextPlayer_def getWinner_def hasStarted_def)

theorem getInfo_fields_witness:
  "status started_session = STARTED \<and>
   info_nextPlayer (getInfo counting_game started_session) = Some (Some 1) \<and>
   info_winner (getInfo counting_game started_session) = None \<and>
   status (run counting_game started_session [Move 1 3 7]) = ENDED \<and>
   info_winner (getInfo counting_game (run counting_game started_session [Move 1 3 7]))
     = Some (Some 1) \<and>
   info_nextPlayer (getInfo counting_game (run counting_game started_session [Move 1 3 7]))
     = None"
proof -
  have a: "status started_session = STARTED"
    by code_simp
  have a': "game_getNextPlayer counting_game (game started_session) = 1"
    by code_simp
  have b: "status (run counting_game started_session [Move 1 3 7]) = ENDED"
    by code_simp
  have b': "game_getWinner counting_game
              (game (run counting_game started_session [Move 1 3 7])) = 1"
    by code_simp
  note t1 = getInfo_fields [of counting_game started_session]
  note t2 = getInfo_fields [of counting_game "run counting_game started_session [Move 1 3 7]"]
  from t1 a a' have r1:
    "info_nextPlayer (getInfo counting_game started_session) = Some (Some 1)"
    "info_winner (getInfo counting_game started_session) = None"
    by simp_all
  from t2 b b' have r2:
    "info_winner (getInfo counting_game (run counting_game started_session [Move 1 3 7]))
       = Some (Some 1)"
    "info_nextPlayer (getInfo counting_game (run counting_game started_session [Move 1 3 7]))
       = None"
    by simp_all
  from a b r1 r2 show ?thesis by blast
qed

text \<open>The claim as the spec states it, with \<^verbatim>\<open>winner\<close> also present while the status is
  \<^verbatim>\<open>ERROR\<close>, fails on the session that a move to the count 5 leaves in \<^verbatim>\<open>ERROR\<close>.\<close>

theorem getInfo_winner_counterexample:
  "status (run counting_game started_session [Move 1 5 7]) = ERROR \<and>
   info_winner (getInfo counting_game (run counting_game started_session [Move 1 5 7])) = None"
  by code_simp

subsection \<open>The turn timer fires\<close>

text \<open>
  Claim C9. When the pending turn timer fires, the callback asks the rules module for
  the effect of the timeout. If the rules module reports no change, nothing of the
  session but the game itself is touched: no event, no history record, the status as it
  was, and the timer is left with nothing pending. If it reports a change and the game
  has not ended, the history is recorded (a truthy pending snapshot is appended to the
  events, and the full state of the game after the timeout becomes the pending
  snapshot), \<^verbatim>\<open>stateChange\<close> is emitted, \<^verbatim>\<open>waitingForMove\<close> is emitted exactly if the
  next player differs from the one before the timeout, and the timer is started again
  with the move time limit. If it reports a change and the game has ended, the status
  becomes \<^verbatim>\<open>ERROR\<close> or \<^verbatim>\<open>ENDED\<close>, \<^verbatim>\<open>end\<close> is emitted, the history is left as it was and
  the timer is left with nothing pending.
\<close>

theorem timer_fire_bookkeeping:
  assumes "running (moveTimer s) \<noteq> None"
    and "game_onMoveTimeout R (game s) = (changed, g)"
  shows
  "(\<not> changed \<longrightarrow>
      timer_fire R s = s\<lparr>moveTimer := (moveTimer s)\<lparr>running := None\<rparr>, game := g\<rparr>) \<and>
   (changed \<and> \<not> game_isEnded R g \<longrightarrow>
      emitted (timer_fire R s)
        = emitted s @ [StateChange] @
          (if game_getNextPlayer R g \<noteq> game_getNextPlayer R (game s)
           then [WaitingForMove (game_getNextPlayer R g)] else []) \<and>
      history (timer_fire R s) =
        \<lparr>events = events (history s) @
           (case next' (history s) of
              None \<Rightarrow> []
            | Some fs \<Rightarrow> if fullState_truthy R fs then [StateSnapshot fs] else []),
         next' = game_getFullState R g\<rparr> \<and>
      moveTimer (timer_fire R s)
        = \<lparr>running = Some (game_getMoveTimeLimit R g), timing = True\<rparr> \<and>
      status (timer_fire R s) = status s \<and> game (timer_fire R s) = g) \<and>
   (changed \<and> game_isEnded R g \<longrightarrow>
      emitted (timer_fire R s) = emitted s @ [End] \<and>
      history (timer_fire R s) = history s \<and>
      moveTimer (timer_fire R s) = (moveTimer s)\<lparr>running := None\<rparr> \<and>
      status (timer_fire R s) = (if game_isError R g then ERROR else ENDED) \<and>
      game (timer_fire R s) = g)"
proof -
  from assms(1) obtain d where d: "running (moveTimer s) = Some d"
    by blast
  show ?thesis
    using d assms(2)
    by (simp add: timer_fire_def onMoveTimeout_def Let_def onStateChange_emitted
        onStateChange_history onStateChange_moveTimer onStateChange_status timer_start_def
        on_start_stateChange_history)
qed

theorem timer_fire_bookkeeping_witness:
  "running (moveTimer started_session) \<noteq> None \<and>
   game_onMoveTimeout counting_game (game started_session) = (True, (1, 1)) \<and>
   \<not> game_isEnded counting_game (1, 1) \<and>
   emitted (timer_fire counting_game started_session)
     = emitted started_session @ [StateChange] \<and>
   history (timer_fire counting_game started_session)
     = \<lparr>events = [StateSnapshot (0, 1)], next' = Some (1, 1)\<rparr> \<and>
   moveTimer (timer_fire counting_game started_session)
     = \<lparr>running = Some 1000, timing = True\<rparr>"
proof -
  have a: "running (moveTimer started_session) \<noteq> None"
    by code_simp
  have b: "game_onMoveTimeout counting_game (game started_session) = (True, (1, 1))"
    by code_simp
  have c: "\<not> game_isEnded counting_game (1, 1)"
    by code_simp
  have d: "game_getNextPlayer counting_game (1, 1)
             = game_getNextPlayer counting_game (game started_session)"
    by code_simp
  have e: "game_getMoveTimeLimit counting_game (1, 1) = 1000"
    "game_getFullState counting_game (1, 1) = Some (1, 1)"
    "history started_session = \<lparr>events = [], next' = Some (0, 1)\<rparr>"
    "fullState_truthy counting_game (0, 1)"
    by code_simp+
  from timer_fire_bookkeeping [OF a b] c d e have
    "emitted (timer_fire counting_game started_session)
       = emitted started_session @ [StateChange]"
    "history (timer_fire counting_game started_session)
       = \<lparr>events = [StateSnapshot (0, 1)], next' = Some (1, 1)\<rparr>"
    "moveTimer (timer_fire counting_game started_session)
     = \<lparr>running = Some 1000, timing = True\<rparr>"
    by simp_all
  with a b c show ?thesis by blast
qed

subsection \<open>The connection that starts the session\<close>

text \<open>
  Claim C5, as the code has it. Let \<^verbatim>\<open>connect(p)\<close>, for a registered player that has not
  connected before, raise the number of connected players to the number of players of
  the game while the status is \<^verbatim>\<open>NOT_STARTED\<close>. Then the call returns, \<^verbatim>\<open>start\<close> is
  emitted and its listener records the state into the history (the pending snapshot
  becomes the full state of the game). If the rules module does not report the game as
  ended, the status is \<^verbatim>\<open>STARTED\<close>, \<^verbatim>\<open>waitingForMove\<close> is emitted with the next player of
  the rules module, the timer is started with the move time limit, and no
  \<^verbatim>\<open>stateChange\<close> is emitted. If the rules module reports the game as ended already,
  the status becomes \<^verbatim>\<open>ERROR\<close> or \<^verbatim>\<open>ENDED\<close> and \<^verbatim>\<open>end\<close> is emitted instead, with no
  \<^verbatim>\<open>waitingForMove\<close> and the timer left alone.
\<close>

theorem connect_starts_session:
  assumes "map_of (playerState s) p = Some ps" and "\<not> connectedOnce ps"
    and "status s = NOT_STARTED"
    and "connectedPlayerCount s + 1 = game_getPlayerCount R (game s)"
  shows "\<exists>s'. connect R s p = Inr s' \<and>
     connectedPlayerCount s' = game_getPlayerCount R (game s) \<and>
     map_of (playerState s') p = Some \<lparr>connectedOnce = True\<rparr> \<and>
     history s' =
       \<lparr>events = events (history s) @
          (case next' (history s) of
             None \<Rightarrow> []
           | Some fs \<Rightarrow> if fullState_truthy R fs then [StateSnapshot fs] else []),
        next' = game_getFullState R (game s)\<rparr> \<and>
     (\<not> game_isEnded R (game s) \<longrightarrow>
        status s' = STARTED \<and>
        emitted s' = emitted s @ [Start, WaitingForMove (game_getNextPlayer R (game s))] \<and>
        moveTimer s' = \<lparr>running = Some (game_getMoveTimeLimit R (game s)), timing = True\<rparr>) \<and>
     (game_isEnded R (game s) \<longrightarrow>
        status s' = (if game_isError R (game s) then ERROR else ENDED) \<and>
        emitted s' = emitted s @ [Start, End] \<and>
        moveTimer s' = moveTimer s)"
  using assms
  by (simp add: connect_first_time Let_def onStateChange_status onStateChange_emitted
      onStateChange_moveTimer onStateChange_history emit_history on_start_stateChange_history
      timer_start_def AList.update_conv')

theorem connect_starts_session_witness:
  "map_of (playerState one_connected) (Slot 2) = Some \<lparr>connectedOnce = False\<rparr> \<and>
   status one_connected = NOT_STARTED \<and>
   connectedPlayerCount one_connected + 1
     = game_getPlayerCount counting_game (game one_connected) \<and>
   \<not> game_isEnded counting_game (game one_connected) \<and>
   (\<exists>s'. connect counting_game one_connected (Slot 2) = Inr s' \<and> status s' = STARTED \<and>
      emitted s' = [Start, WaitingForMove 1] \<and>
      moveTimer s' = \<lparr>running = Some 1000, timing = True\<rparr> \<and>
      history s' = \<lparr>events = [], next' = Some (0, 1)\<rparr>)"
proof -
  have a: "map_of (playerState one_connected) (Slot 2) = Some \<lparr>connectedOnce = False\<rparr>"
    by code_simp
  have b: "\<not> connectedOnce \<lparr>connectedOnce = False\<rparr>"
    by simp
  have c: "status one_connected = NOT_STARTED"
    by code_simp
  have d: "connectedPlayerCount one_connected + 1
             = game_getPlayerCount counting_game (game one_connected)"
    by code_simp
  have e: "\<not> game_isEnded counting_game (game one_connected)"
    by code_simp
  have f: "emitted one_connected = []" "history one_connected = \<lparr>events = [], next' = None\<rparr>"
    "game_getNextPlayer counting_game (game one_connected) = 1"
    "game_getMoveTimeLimit counting_game (game one_connected) = 1000"
    "game_getFullState counting_game (game one_connected) = Some (0, 1)"
    by code_simp+
  from connect_starts_session [OF a b c d] e f
  obtain s' where "connect counting_game one_connected (Slot 2) = Inr s'" "status s' = STARTED"
      "emitted s' = [Start, WaitingForMove 1]"
      "moveTimer s' = \<lparr>running = Some 1000, timing = True\<rparr>"
      "history s' = \<lparr>events = [], next' = Some (0, 1)\<rparr>"
    by auto
  then have "\<exists>s'. connect counting_game one_connected (Slot 2) = Inr s' \<and> status s' = STARTED \<and>
      emitted s' = [Start, WaitingForMove 1] \<and>
      moveTimer s' = \<lparr>running = Some 1000, timing = True\<rparr> \<and>
      history s' = \<lparr>events = [], next' = Some (0, 1)\<rparr>"
    by blast
  with a c d e show ?thesis by blast
qed

text \<open>The claim as the spec states it fails where the game has already ended when the
  last player connects: the counting game created at the count 3. The player 2 is
  registered and not connected, its connection raises the count of connected players to
  2, and the status is \<^verbatim>\<open>NOT_STARTED\<close>; after the call the status is \<^verbatim>\<open>ENDED\<close>, no
  \<^verbatim>\<open>waitingForMove\<close> was emitted and the timer is not running.\<close>

theorem connect_starts_session_counterexample:
  "map_of (playerState ended_at_start) (Slot 2) = Some \<lparr>connectedOnce = False\<rparr> \<and>
   status ended_at_start = NOT_STARTED \<and>
   connectedPlayerCount ended_at_start + 1
     = game_getPlayerCount counting_game (game ended_at_start) \<and>
   connect counting_game ended_at_start (Slot 2) =
     Inr \<lparr>id' = ''g2'', game = (3, 1), status = ENDED,
          moveTimer = \<lparr>running = None, timing = False\<rparr>,
          history = \<lparr>events = [], next' = Some (3, 1)\<rparr>,
          currentPlayerCount = 2, connectedPlayerCount = 2,
          playerTokenTable = [(''aa'', Slot 1), (''bb'', Slot 2)],
          playerState =
            [(Slot 1, \<lparr>connectedOnce = True\<rparr>), (Slot 2, \<lparr>connectedOnce = True\<rparr>)],
          emitted = [Start, End], inherited_connectedOnce = []\<rparr>"
  by code_simp

subsection \<open>Connecting twice, and the \<^verbatim>\<open>start\<close> event\<close>

lemma connect_result:
  assumes "connect R s p = Inr s1"
  shows "connectedPlayerCount s \<le> connectedPlayerCount s1"
    and "connectedPlayerCount s1 \<le> connectedPlayerCount s + 1"
  using assms by (cases rule: connect_Inr; simp)+

lemma move_count_Start [simp]:
  "count_list (emitted (snd (move R s p mv el))) Start = count_list (emitted s) Start"
  by (simp add: move_def Let_def split_beta onStateChange_emitted)

lemma move_hasStarted [simp]:
  "hasStarted (snd (move R s p mv el)) = hasStarted s"
  by (simp add: move_def Let_def split_beta onStateChange_status hasStarted_def)

lemma timer_fire_count_Start [simp]:
  "count_list (emitted (timer_fire R s)) Start = count_list (emitted s) Start"
  by (simp add: timer_fire_def onMoveTimeout_def Let_def split_beta onStateChange_emitted)

lemma timer_fire_hasStarted:
  "hasStarted s \<Longrightarrow> hasStarted (timer_fire R s)"
  by (simp add: timer_fire_def onMoveTimeout_def Let_def split_beta onStateChange_status
      hasStarted_def)

lemma registerNewPlayer_emitted_status [simp]:
  "emitted (snd (registerNewPlayer R s pl tok)) = emitted s"
  "status (snd (registerNewPlayer R s pl tok)) = status s"
  by (simp_all add: registerNewPlayer_def Let_def)

lemma connect_start_once:
  assumes "connect R s p = Inr s'" and "start_once s"
  shows "start_once s'"
  using assms(1)
proof (cases rule: connect_Inr)
  case unchanged
  with assms(2) show ?thesis by simp
next
  case counted
  with assms(2) show ?thesis by (simp add: start_once_def hasStarted_def)
next
  case (started s1)
  with assms(2) show ?thesis
    by (simp add: start_once_def hasStarted_def onStateChange_emitted onStateChange_status)
qed

lemma step_start_once:
  assumes "start_once s"
  shows "start_once (step R s operation)"
proof (cases operation)
  case (Register pl tok)
  with assms show ?thesis
    by (simp add: step_def start_once_def hasStarted_def)
next
  case (Connect p)
  with assms show ?thesis
    by (cases "connect R s p") (auto simp: step_def dest: connect_start_once)
next
  case (Move p mv el)
  with assms show ?thesis
    by (simp add: step_def start_once_def)
next
  case TimerFire
  with assms timer_fire_hasStarted [of s R] show ?thesis
    by (auto simp: step_def start_once_def)
qed

lemma run_start_once:
  "start_once s \<Longrightarrow> start_once (run R s ops)"
  by (induction ops arbitrary: s) (simp_all add: step_start_once)

lemma GameInstance_start_once: "start_once (GameInstance i g)"
  by (simp add: start_once_def GameInstance_def)

text \<open>
  Claim C8. For a player that has connected before, \<^verbatim>\<open>connect\<close> returns without
  changing anything. Whenever \<^verbatim>\<open>connect(p)\<close> returns, a second \<^verbatim>\<open>connect(p)\<close> right
  after it changes nothing, so the two calls together raise the number of connected
  players by at most 1. After any sequence of operations on a new session, \<^verbatim>\<open>start\<close>
  has been emitted at most once.
\<close>

theorem connect_idempotent:
  fixes s :: "('g, 'mv, 'fs, 'i) session" and R :: "('g, 'mv, 'fs, 'pr, 'w) rules"
    and i :: 'i
  shows
  "(map_of (playerState s) p = Some ps \<and> connectedOnce ps \<longrightarrow> connect R s p = Inr s) \<and>
   (connect R s p = Inr s1 \<longrightarrow>
      connect R s1 p = Inr s1 \<and>
      connectedPlayerCount s \<le> connectedPlayerCount s1 \<and>
      connectedPlayerCount s1 \<le> connectedPlayerCount s + 1) \<and>
   count_list (emitted (run R (GameInstance i g) ops)) Start \<le> 1"
proof -
  have a: "connect R s p = Inr s" if "map_of (playerState s) p = Some ps \<and> connectedOnce ps"
    using that by (simp add: connect_again)
  have b: "connect R s1 p = Inr s1 \<and>
      connectedPlayerCount s \<le> connectedPlayerCount s1 \<and>
      connectedPlayerCount s1 \<le> connectedPlayerCount s + 1" if "connect R s p = Inr s1"
    using connect_result [OF that] connect_twice [OF that] by simp
  have "start_once (run R (GameInstance i g :: ('g, 'mv, 'fs, 'i) session) ops)"
    by (rule run_start_once [OF GameInstance_start_once])
  then have c: "count_list (emitted (run R (GameInstance i g :: ('g, 'mv, 'fs, 'i) session) ops))
      Start \<le> 1"
    by (simp add: start_once_def)
  from a b c show ?thesis by blast
qed

theorem connect_idempotent_witness:
  "map_of (playerState started_session) (Slot 1) = Some \<lparr>connectedOnce = True\<rparr> \<and>
   connect counting_game started_session (Slot 1) = Inr started_session \<and>
   connect counting_game one_connected (Slot 2) = Inr started_session \<and>
   connect counting_game started_session (Slot 2) = Inr started_session \<and>
   connectedPlayerCount started_session \<le> connectedPlayerCount one_connected + 1 \<and>
   count_list (emitted (run counting_game (GameInstance ''g1'' (0, 1))
       [Register None ''aa'', Register None ''bb'', Connect (Slot 1), Connect (Slot 2),
        Connect (Slot 2), Move 1 1 5, Connect (Slot 1)])) Start \<le> 1"
proof -
  have a: "map_of (playerState started_session) (Slot 1) = Some \<lparr>connectedOnce = True\<rparr>"
    by code_simp
  have b: "connect counting_game one_connected (Slot 2) = Inr started_session"
    by code_simp
  note t1 = connect_idempotent [of started_session "Slot 1" "\<lparr>connectedOnce = True\<rparr>"
      counting_game
      started_session "''g1''" "(0, 1)"
      "[Register None ''aa'', Register None ''bb'', Connect (Slot 1), Connect (Slot 2),
        Connect (Slot 2), Move 1 1 5, Connect (Slot 1)]"]
  note t2 = connect_idempotent [of one_connected "Slot 2" "\<lparr>connectedOnce = True\<rparr>"
      counting_game
      started_session "''g1''" "(0, 1)" "[]"]
  from t1 a have r1: "connect counting_game started_session (Slot 1) = Inr started_session"
    by simp
  from t2 b have r2: "connect counting_game started_session (Slot 2) = Inr started_session"
    "connectedPlayerCount started_session \<le> connectedPlayerCount one_connected + 1"
    by simp_all
  from t1 have r3: "count_list (emitted (run counting_game
       (GameInstance ''g1'' (0, 1) :: (nat \<times> int, nat, nat \<times> int, string) session)
       [Register None ''aa'', Register None ''bb'', Connect (Slot 1), Connect (Slot 2),
        Connect (Slot 2), Move 1 1 5, Connect (Slot 1)])) Start \<le> 1"
    by blast
  from a b r1 r2 r3 show ?thesis by blast
qed

subsection \<open>Registration\<close>







lemma registerNewPlayer_game [simp]:
  "game (snd (registerNewPlayer R s pl tok)) = game s"
  by (simp add: registerNewPlayer_def Let_def)






subsection \<open>The status only moves forward\<close>

lemma status_le_refl [simp]: "status_le a a"
  by (cases a) simp_all

lemma status_le_trans: "status_le a b \<Longrightarrow> status_le b c \<Longrightarrow> status_le a c"
  by (cases a; cases b) auto

lemma move_unfold:
  "move R s p mv el =
     (if \<not> hasStarted s then (None, s)
      else if game_isEnded R (game s) \<or> \<not> game_isValidMove R (game s) p mv
      then (Some False, s)
      else (Some True,
            onStateChange R
              (emit R
                 (s\<lparr>moveTimer := (moveTimer s)\<lparr>running := None, timing := False\<rparr>,
                    game := game_move R (game s) p mv
                              (if timing (moveTimer s) then el else 0)\<rparr>)
                 (MoveEvent p mv))
              True True))"
  by (simp add: move_def timer_stop_def Let_def)

lemma register_consistent:
  "consistent R s \<Longrightarrow> consistent R (snd (registerNewPlayer R s pl tok))"
  by (simp add: consistent_def registerNewPlayer_def Let_def)

lemma connect_consistent:
  assumes "connect R s p = Inr s'" and "consistent R s"
  shows "consistent R s' \<and> status_le (status s) (status s')"
  using assms(1)
proof (cases rule: connect_Inr)
  case unchanged
  with assms(2) show ?thesis by simp
next
  case counted
  with assms(2) show ?thesis by (simp add: consistent_def)
next
  case (started s1)
  with assms(2) show ?thesis
    by (simp add: consistent_def onStateChange_status onStateChange_moveTimer
        timer_start_def)
qed

lemma move_consistent:
  assumes "consistent R s"
  shows "consistent R (snd (move R s p mv el))
         \<and> status_le (status s) (status (snd (move R s p mv el)))"
proof (cases "hasStarted s \<and> \<not> game_isEnded R (game s) \<and> game_isValidMove R (game s) p mv")
  case False
  with assms show ?thesis by (auto simp: move_unfold)
next
  case True
  with assms have st: "status s = STARTED"
    by (cases "status s") (simp_all add: consistent_def hasStarted_def)
  from True st show ?thesis
    by (simp add: move_unfold consistent_def onStateChange_status onStateChange_moveTimer
        timer_start_def)
qed

lemma timer_fire_consistent:
  assumes "consistent R s"
  shows "consistent R (timer_fire R s)
         \<and> status_le (status s) (status (timer_fire R s))"
proof (cases "running (moveTimer s) = None")
  case True
  with assms show ?thesis by (simp add: timer_fire_def)
next
  case False
  with assms have st: "status s = STARTED"
    by (cases "status s") (simp_all add: consistent_def)
  obtain changed g where g: "game_onMoveTimeout R (game s) = (changed, g)"
    by (cases "game_onMoveTimeout R (game s)")
  from False st g show ?thesis
    by (simp add: timer_fire_def onMoveTimeout_def Let_def consistent_def
        onStateChange_status onStateChange_moveTimer timer_start_def)
qed

lemma step_consistent:
  assumes "consistent R s"
  shows "consistent R (step R s operation)
         \<and> status_le (status s) (status (step R s operation))"
proof (cases operation)
  case (Register pl tok)
  with register_consistent [OF assms, of pl tok] show ?thesis
    by (simp add: step_def)
next
  case (Connect p)
  show ?thesis
  proof (cases "connect R s p")
    case (Inl e)
    with Connect assms show ?thesis by (simp add: step_def)
  next
    case (Inr s')
    with Connect connect_consistent [OF Inr assms] show ?thesis by (simp add: step_def)
  qed
next
  case (Move p mv el)
  with move_consistent [OF assms, of p mv el] show ?thesis
    by (simp add: step_def)
next
  case TimerFire
  with timer_fire_consistent [OF assms] show ?thesis
    by (simp add: step_def)
qed

lemma run_consistent:
  "consistent R s \<Longrightarrow> consistent R (run R s ops) \<and> status_le (status s) (status (run R s ops))"
proof (induction ops arbitrary: s)
  case Nil
  then show ?case by simp
next
  case (Cons operation ops)
  from step_consistent [OF Cons.prems, of operation]
  have 1: "consistent R (step R s operation)"
    and 2: "status_le (status s) (status (step R s operation))"
    by blast+
  from Cons.IH [OF 1] 2 show ?case
    by (auto intro: status_le_trans)
qed

lemma visited_consistent:
  assumes "consistent R s" and "t \<in> set (visited R s ops)"
  shows "consistent R t \<and> status_le (status s) (status t)"
  using assms
proof (induction ops arbitrary: s)
  case Nil
  then show ?case by simp
next
  case (Cons operation ops)
  show ?case
  proof (cases "t = s")
    case True
    with Cons.prems show ?thesis by simp
  next
    case False
    with Cons.prems have t: "t \<in> set (visited R (step R s operation) ops)"
      by simp
    from step_consistent [OF Cons.prems(1), of operation]
    have 1: "consistent R (step R s operation)"
      and 2: "status_le (status s) (status (step R s operation))"
      by blast+
    from Cons.IH [OF 1 t] 2 show ?thesis
      by (auto intro: status_le_trans)
  qed
qed

lemma visited_sorted:
  "consistent R s \<Longrightarrow> sorted_wrt status_le (map status (visited R s ops))"
proof (induction ops arbitrary: s)
  case Nil
  show ?case by simp
next
  case (Cons operation ops)
  from step_consistent [OF Cons.prems, of operation]
  have 1: "consistent R (step R s operation)"
    by blast
  have "status_le (status s) (status t)" if "t \<in> set (visited R (step R s operation) ops)" for t
  proof -
    from step_consistent [OF Cons.prems, of operation] visited_consistent [OF 1 that]
    show ?thesis by (auto intro: status_le_trans)
  qed
  with Cons.IH [OF 1] show ?case by auto
qed

lemma run_in_visited: "run R s ops \<in> set (visited R s ops)"
  by (induction ops arbitrary: s) simp_all

lemma GameInstance_consistent: "consistent R (GameInstance i g)"
  by (simp add: consistent_def GameInstance_def new_Timer_def)

text \<open>
  Claim C4. Take any sequence of operations (registrations, connections, moves, timer
  fires) on a new session, whose status is \<^verbatim>\<open>NOT_STARTED\<close>. The statuses of the sessions
  visited, in order, never step back along \<^verbatim>\<open>NOT_STARTED\<close>, \<^verbatim>\<open>STARTED\<close>, then \<^verbatim>\<open>ENDED\<close>
  or \<^verbatim>\<open>ERROR\<close>: each later status is the earlier one or comes after it, and a session
  that is \<^verbatim>\<open>ENDED\<close> or \<^verbatim>\<open>ERROR\<close> keeps that status. A session in the status \<^verbatim>\<open>ERROR\<close> is
  one whose rules module reports the game as ended and in error.
\<close>

theorem status_monotonic:
  fixes R :: "('g, 'mv, 'fs, 'pr, 'w) rules" and i :: 'i
  shows
  "status (GameInstance i g :: ('g, 'mv, 'fs, 'i) session) = NOT_STARTED \<and>
   sorted_wrt status_le
     (map status (visited R (GameInstance i g :: ('g, 'mv, 'fs, 'i) session) ops)) \<and>
   (\<forall>t \<in> set (visited R (GameInstance i g :: ('g, 'mv, 'fs, 'i) session) ops).
      status t = ERROR \<longrightarrow> game_isEnded R (game t) \<and> game_isError R (game t))"
proof -
  have a: "status (GameInstance i g :: ('g, 'mv, 'fs, 'i) session) = NOT_STARTED"
    by (simp add: GameInstance_def)
  have b: "sorted_wrt status_le
     (map status (visited R (GameInstance i g :: ('g, 'mv, 'fs, 'i) session) ops))"
    by (rule visited_sorted [OF GameInstance_consistent])
  have c: "game_isEnded R (game t) \<and> game_isError R (game t)"
    if "t \<in> set (visited R (GameInstance i g :: ('g, 'mv, 'fs, 'i) session) ops)"
      and "status t = ERROR" for t
    using visited_consistent [OF GameInstance_consistent that(1)] that(2)
    by (simp add: consistent_def)
  from a b c show ?thesis by blast
qed

theorem status_monotonic_witness:
  "run counting_game (GameInstance ''g1'' (0, 1))
       [Register None ''aa'', Register None ''bb'', Connect (Slot 1), Connect (Slot 2), Move 1 5 7]
     \<in> set (visited counting_game (GameInstance ''g1'' (0, 1))
       [Register None ''aa'', Register None ''bb'', Connect (Slot 1), Connect (Slot 2), Move 1 5 7]) \<and>
   status (run counting_game (GameInstance ''g1'' (0, 1))
       [Register None ''aa'', Register None ''bb'', Connect (Slot 1), Connect (Slot 2), Move 1 5 7]) = ERROR \<and>
   game_isEnded counting_game (game (run counting_game (GameInstance ''g1'' (0, 1))
       [Register None ''aa'', Register None ''bb'', Connect (Slot 1), Connect (Slot 2), Move 1 5 7])) \<and>
   game_isError counting_game (game (run counting_game (GameInstance ''g1'' (0, 1))
       [Register None ''aa'', Register None ''bb'', Connect (Slot 1), Connect (Slot 2), Move 1 5 7])) \<and>
   sorted_wrt status_le
     (map status (visited counting_game (GameInstance ''g1'' (0, 1))
       [Register None ''aa'', Register None ''bb'', Connect (Slot 1), Connect (Slot 2), Move 1 5 7]))"
proof -
  let ?s0 = "GameInstance ''g1'' (0, 1) :: (nat \<times> int, nat, nat \<times> int, string) session"
  let ?ops = "[Register None ''aa'', Register None ''bb'', Connect (Slot 1), Connect (Slot 2), Move 1 5 7]"
  have a: "run counting_game ?s0 ?ops \<in> set (visited counting_game ?s0 ?ops)"
    by (rule run_in_visited)
  have b: "status (run counting_game ?s0 ?ops) = ERROR"
    by code_simp
  note t = status_monotonic [of "''g1''" "(0, 1)" counting_game ?ops]
  from t a b have c: "game_isEnded counting_game (game (run counting_game ?s0 ?ops)) \<and>
      game_isError counting_game (game (run counting_game ?s0 ?ops))"
    by blast
  from t have d: "sorted_wrt status_le (map status (visited counting_game ?s0 ?ops))"
    by blast
  from a b c d show ?thesis by blast
qed

subsection \<open>The move that ends the game\<close>

lemma move_after_end:
  assumes "status s = ENDED \<or> status s = ERROR" and "consistent R s"
  shows "move R s p mv el = (Some False, s)"
  using assms by (auto simp: move_unfold consistent_def hasStarted_def)

lemma run_after_end:
  assumes "status s = ENDED \<or> status s = ERROR" and "consistent R s"
  shows "(status (run R s ops) = ENDED \<or> status (run R s ops) = ERROR)
         \<and> consistent R (run R s ops)"
proof -
  from run_consistent [OF assms(2), of ops]
  have "consistent R (run R s ops)" and "status_le (status s) (status (run R s ops))"
    by blast+
  with assms(1) show ?thesis by auto
qed

text \<open>
  Claim C2, as the code has it. Let a move be made on a started session whose game has
  not ended and accepts the move, and let the rules module report the game as ended
  after it. Then \<^verbatim>\<open>move\<close> returns \<^verbatim>\<open>true\<close>; the \<^verbatim>\<open>move\<close> event with that player and
  payload is emitted, then \<^verbatim>\<open>end\<close>, and nothing else; the status becomes \<^verbatim>\<open>ENDED\<close>, or
  \<^verbatim>\<open>ERROR\<close> if the rules module reports an error. After any further operations, every
  call of \<^verbatim>\<open>move\<close> returns \<^verbatim>\<open>false\<close>, the value of an illegal move (not \<^verbatim>\<open>null\<close>, the
  value of a session that has not started), and changes nothing.
\<close>

theorem winning_move:
  assumes "hasStarted s" and "\<not> game_isEnded R (game s)"
    and "game_isValidMove R (game s) p mv"
    and "game_isEnded R (game_move R (game s) p mv (fst (timer_stop (moveTimer s) el)))"
  shows "\<exists>s'. move R s p mv el = (Some True, s') \<and>
     game s' = game_move R (game s) p mv (fst (timer_stop (moveTimer s) el)) \<and>
     emitted s' = emitted s @ [MoveEvent p mv, End] \<and>
     status s' = (if game_isError R (game s') then ERROR else ENDED) \<and>
     (\<forall>ops p' mv' el'.
        move R (run R s' ops) p' mv' el' = (Some False, run R s' ops) \<and>
        fst (move R (run R s' ops) p' mv' el') \<noteq> None)"
proof -
  let ?g = "game_move R (game s) p mv (fst (timer_stop (moveTimer s) el))"
  let ?s' = "snd (move R s p mv el)"
  have g: "?g = game_move R (game s) p mv (if timing (moveTimer s) then el else 0)"
    by (simp add: timer_stop_def)
  from assms(1-3) have m: "move R s p mv el = (Some True, ?s')"
    by (simp add: move_unfold)
  from assms have game: "game ?s' = ?g"
    by (simp add: move_unfold g)
  from assms have em: "emitted ?s' = emitted s @ [MoveEvent p mv, End]"
    by (simp add: move_unfold g onStateChange_emitted)
  from assms have st: "status ?s' = (if game_isError R ?g then ERROR else ENDED)"
    by (simp add: move_unfold g onStateChange_status)
  from assms have tm: "running (moveTimer ?s') = None"
    by (simp add: move_unfold g onStateChange_moveTimer)
  from st have fin: "status ?s' = ENDED \<or> status ?s' = ERROR"
    by simp
  from st tm game assms(4) have cons: "consistent R ?s'"
    by (simp add: consistent_def)
  have later: "move R (run R ?s' ops) p' mv' el' = (Some False, run R ?s' ops) \<and>
        fst (move R (run R ?s' ops) p' mv' el') \<noteq> None" for ops p' mv' el'
  proof -
    from run_after_end [OF fin cons, of ops]
    have "status (run R ?s' ops) = ENDED \<or> status (run R ?s' ops) = ERROR"
      and "consistent R (run R ?s' ops)"
      by blast+
    then have "move R (run R ?s' ops) p' mv' el' = (Some False, run R ?s' ops)"
      by (rule move_after_end)
    then show ?thesis by simp
  qed
  from st game have st': "status ?s' = (if game_isError R (game ?s') then ERROR else ENDED)"
    by simp
  from later have later': "\<forall>ops p' mv' el'.
        move R (run R ?s' ops) p' mv' el' = (Some False, run R ?s' ops) \<and>
        fst (move R (run R ?s' ops) p' mv' el') \<noteq> None"
    by blast
  from m game em st' later' show ?thesis
    by blast
qed


theorem winning_move_witness:
  "hasStarted started_session \<and> \<not> game_isEnded counting_game (game started_session) \<and>
   game_isValidMove counting_game (game started_session) 1 3 \<and>
   game_isEnded counting_game
     (game_move counting_game (game started_session) 1 3
        (fst (timer_stop (moveTimer started_session) 7))) \<and>
   (\<exists>s'. move counting_game started_session 1 3 7 = (Some True, s') \<and>
      emitted s' = [Start, WaitingForMove 1, MoveEvent 1 3, End] \<and> status s' = ENDED \<and>
      move counting_game (run counting_game s' [Connect (Slot 1), TimerFire, Move 2 1 0]) 2 1 0
        = (Some False, run counting_game s' [Connect (Slot 1), TimerFire, Move 2 1 0]))"
proof -
  have a: "hasStarted started_session"
    by code_simp
  have b: "\<not> game_isEnded counting_game (game started_session)"
    by code_simp
  have c: "game_isValidMove counting_game (game started_session) 1 3"
    by code_simp
  have d: "game_isEnded counting_game
     (game_move counting_game (game started_session) 1 3
        (fst (timer_stop (moveTimer started_session) 7)))"
    by code_simp
  have e: "emitted started_session = [Start, WaitingForMove 1]"
    by code_simp
  have f: "\<not> game_isError counting_game
     (game_move counting_game (game started_session) 1 3
        (fst (timer_stop (moveTimer started_session) 7)))"
    by code_simp
  from winning_move [OF a b c d] obtain s' where
    s': "move counting_game started_session 1 3 7 = (Some True, s')"
      "game s' = game_move counting_game (game started_session) 1 3
        (fst (timer_stop (moveTimer started_session) 7))"
      "emitted s' = emitted started_session @ [MoveEvent 1 3, End]"
      "status s' = (if game_isError counting_game (game s') then ERROR else ENDED)"
      "\<forall>ops p' mv' el'.
        move counting_game (run counting_game s' ops) p' mv' el'
          = (Some False, run counting_game s' ops) \<and>
        fst (move counting_game (run counting_game s' ops) p' mv' el') \<noteq> None"
    by blast
  from s'(3) e have 1: "emitted s' = [Start, WaitingForMove 1, MoveEvent 1 3, End]"
    by simp
  from s'(2,4) f have 2: "status s' = ENDED"
    by simp
  from s'(5) have 3:
    "move counting_game (run counting_game s' [Connect (Slot 1), TimerFire, Move 2 1 0]) 2 1 0
        = (Some False, run counting_game s' [Connect (Slot 1), TimerFire, Move 2 1 0])"
    by blast
  from a b c d s'(1) 1 2 3 show ?thesis by blast
qed

text \<open>The claim as the spec states it fails twice on the counting game. After the move
  that ends the game at the count 3, a further \<^verbatim>\<open>move\<close> returns \<^verbatim>\<open>false\<close>, which is not
  what \<^verbatim>\<open>move\<close> returns on a session that has not started (\<^verbatim>\<open>null\<close>). And the move that
  ends the game at the count 5 is applied with the game reported as ended, but leaves the
  status \<^verbatim>\<open>ERROR\<close>, not \<^verbatim>\<open>ENDED\<close>.\<close>

theorem winning_move_counterexample:
  "fst (move counting_game started_session 1 3 7) = Some True \<and>
   game_isEnded counting_game (game (snd (move counting_game started_session 1 3 7))) \<and>
   fst (move counting_game (snd (move counting_game started_session 1 3 7)) 2 1 0) = Some False \<and>
   fst (move counting_game new_session 2 1 0) = None \<and>
   fst (move counting_game (snd (move counting_game started_session 1 3 7)) 2 1 0)
     \<noteq> fst (move counting_game new_session 2 1 0) \<and>
   fst (move counting_game started_session 1 5 7) = Some True \<and>
   game_isEnded counting_game (game (snd (move counting_game started_session 1 5 7))) \<and>
   status (snd (move counting_game started_session 1 5 7)) = ERROR \<and>
   status (snd (move counting_game started_session 1 5 7)) \<noteq> ENDED"
  by code_simp

subsection \<open>The history between two moves\<close>

lemma no_consecutive_snapshots_Cons_move [simp]:
  "no_consecutive_snapshots (MoveRecord p m # es) = no_consecutive_snapshots es"
  by (cases es) simp_all




lemma register_history [simp]:
  "history (snd (registerNewPlayer R s pl tok)) = history s"
  by (simp add: registerNewPlayer_def Let_def)











end
